theory Spec2Isabelle
  imports Main
begin

section \<open>Data model\<close>

text \<open>
  The records of \<^verbatim>\<open>src/types/index.ts\<close> and \<^verbatim>\<open>src/models/Note.ts\<close>, restricted to the
  fields the socket layer reads. Object ids and socket ids are strings, as the code compares
  them (\<^verbatim>\<open>owner.toString() === userId\<close>).
\<close>

datatype Role = Read | Write

record Collaborator =
  user :: string
  role :: Role

record Note =
  owner :: string
  collaborators :: "Collaborator list"

text \<open>
  The object literal \<^verbatim>\<open>{ userId, username }\<close> that every notification carries; \<^verbatim>\<open>SocketUser\<close>
  and \<^verbatim>\<open>AuthPayload\<close> have the same two fields and one more each.
\<close>

record ActiveUser =
  userId :: string
  username :: string

record SocketUser = ActiveUser +
  socketId :: string

record AuthPayload = ActiveUser +
  email :: string

record NoteRoom =
  noteId :: string
  users :: "SocketUser list"

text \<open>An authenticated socket: its id and the payload the middleware stored in \<^verbatim>\<open>socket.user\<close>.\<close>

record Socket =
  sock_id :: string
  sock_user :: AuthPayload

section \<open>Authorization (\<^verbatim>\<open>Note.isUserAuthorized\<close>)\<close>

definition isUserAuthorized :: "Note \<Rightarrow> string \<Rightarrow> Role \<Rightarrow> bool" where
  "isUserAuthorized note uid requiredRole =
     (if owner note = uid then True
      else case find (\<lambda>c. user c = uid) (collaborators note) of
             None \<Rightarrow> False
           | Some collaborator \<Rightarrow>
               if requiredRole = Read then True else role collaborator = Write)"

section \<open>Transport and server state\<close>

text \<open>
  What a handler can send: one constructor per event name the server emits, with the fields of
  its payload. Cursor position, selection and timestamp are carried through unchanged.
\<close>

datatype Message =
    ErrorMsg string
  | UserJoined ActiveUser "ActiveUser list"
  | JoinedNote string "ActiveUser list"
  | UserLeft string "ActiveUser list"
  | NoteUpdated string string "string option" ActiveUser nat
  | CursorUpdated ActiveUser int "(int \<times> int) option"

text \<open>
  The module-level maps \<^verbatim>\<open>noteRooms\<close> and \<^verbatim>\<open>userSockets\<close>, together with the part of
  socket.io the handlers touch: \<open>sids\<close> is \<^verbatim>\<open>socket.rooms\<close> for each socket id, \<open>rooms\<close> the
  sockets of each transport room (both insertion-ordered sets, kept as duplicate-free lists),
  and \<open>sent\<close> the messages delivered so far, oldest first, each with the receiving socket id.
\<close>

record state =
  noteRooms :: "string \<rightharpoonup> NoteRoom"
  userSockets :: "string \<rightharpoonup> string"
  sids :: "string \<Rightarrow> string list"
  rooms :: "string \<Rightarrow> string list"
  sent :: "(string \<times> Message) list"

definition init_state :: state where
  "init_state = \<lparr>noteRooms = Map.empty, userSockets = Map.empty,
                 sids = (\<lambda>_. []), rooms = (\<lambda>_. []), sent = []\<rparr>"

definition set_add :: "'a \<Rightarrow> 'a list \<Rightarrow> 'a list" where
  "set_add x xs = (if x \<in> set xs then xs else xs @ [x])"

definition socket_join :: "string \<Rightarrow> string \<Rightarrow> state \<Rightarrow> state" where
  "socket_join sid room s =
     s\<lparr>sids := (sids s)(sid := set_add room (sids s sid)),
       rooms := (rooms s)(room := set_add sid (rooms s room))\<rparr>"

definition socket_leave :: "string \<Rightarrow> string \<Rightarrow> state \<Rightarrow> state" where
  "socket_leave sid room s =
     s\<lparr>sids := (sids s)(sid := removeAll room (sids s sid)),
       rooms := (rooms s)(room := removeAll sid (rooms s room))\<rparr>"

text \<open>\<^verbatim>\<open>socket.emit\<close>: to the socket itself.\<close>

definition socket_emit :: "string \<Rightarrow> Message \<Rightarrow> state \<Rightarrow> state" where
  "socket_emit sid m s = s\<lparr>sent := sent s @ [(sid, m)]\<rparr>"

text \<open>\<^verbatim>\<open>socket.to(room).emit\<close>: to every socket of the room except the sender.\<close>

definition socket_to_emit :: "string \<Rightarrow> string \<Rightarrow> Message \<Rightarrow> state \<Rightarrow> state" where
  "socket_to_emit sid room m s =
     s\<lparr>sent := sent s @ map (\<lambda>r. (r, m)) (filter (\<lambda>r. r \<noteq> sid) (rooms s room))\<rparr>"

text \<open>\<^verbatim>\<open>io.to(room).emit\<close>: to every socket of the room.\<close>

definition io_to_emit :: "string \<Rightarrow> Message \<Rightarrow> state \<Rightarrow> state" where
  "io_to_emit room m s = s\<lparr>sent := sent s @ map (\<lambda>r. (r, m)) (rooms s room)\<rparr>"

section \<open>Socket handlers (\<^verbatim>\<open>src/sockets/socketHandler.ts\<close>)\<close>

definition roomName :: "string \<Rightarrow> string" where
  "roomName nid = ''note:'' @ nid"

definition startsWith :: "string \<Rightarrow> string \<Rightarrow> bool" where
  "startsWith str p = (take (length p) str = p)"

text \<open>
  \<^verbatim>\<open>room.replace('note:', '')\<close> removes the first occurrence of the prefix; it is only called
  on names that start with it, where the first occurrence is the first five characters.
\<close>

definition replace_note_prefix :: "string \<Rightarrow> string" where
  "replace_note_prefix room = drop 5 room"

definition activeUsers :: "SocketUser list \<Rightarrow> ActiveUser list" where
  "activeUsers us = map (\<lambda>u. \<lparr>userId = userId u, username = username u\<rparr>) us"

text \<open>\<^verbatim>\<open>Array.prototype.findIndex\<close>: the first index whose element passes, or \<open>-1\<close>.\<close>

fun findIndex :: "('a \<Rightarrow> bool) \<Rightarrow> 'a list \<Rightarrow> int" where
  "findIndex P [] = - 1"
| "findIndex P (x # xs) =
     (if P x then 0 else (let i = findIndex P xs in if i < 0 then - 1 else i + 1))"

definition handleUserLeaveRoom :: "string \<Rightarrow> string \<Rightarrow> state \<Rightarrow> state" where
  "handleUserLeaveRoom nid uid s =
     (case noteRooms s nid of
        None \<Rightarrow> s
      | Some room \<Rightarrow>
          let us = filter (\<lambda>u. userId u \<noteq> uid) (users room) in
          if length us = 0 then s\<lparr>noteRooms := (noteRooms s)(nid := None)\<rparr>
          else io_to_emit (roomName nid) (UserLeft uid (activeUsers us))
                 (s\<lparr>noteRooms := (noteRooms s)(nid \<mapsto> room\<lparr>users := us\<rparr>)\<rparr>))"

definition getActiveUsersInNote :: "state \<Rightarrow> string \<Rightarrow> SocketUser list" where
  "getActiveUsersInNote s nid = (case noteRooms s nid of None \<Rightarrow> [] | Some room \<Rightarrow> users room)"

text \<open>
  The authentication middleware. \<open>decoded\<close> is what \<^verbatim>\<open>jwt.verify\<close> gave: \<open>None\<close> when the
  token is missing or rejected, and then the connection is refused. An accepted socket is put
  by socket.io into the room named by its own id.
\<close>

definition connect :: "string \<Rightarrow> AuthPayload option \<Rightarrow> state \<Rightarrow> state" where
  "connect sid decoded s =
     (case decoded of
        None \<Rightarrow> s
      | Some p \<Rightarrow> socket_join sid sid (s\<lparr>userSockets := (userSockets s)(userId p \<mapsto> sid)\<rparr>))"

text \<open>
  What \<^verbatim>\<open>await Note.findById(noteId)\<close> gave: a note, \<^verbatim>\<open>null\<close> (a well-formed id that no
  note has), or an exception (an id that cannot be cast to an object id, which the socket
  handlers do not check beforehand, or a failure of the database).
\<close>

datatype Lookup = Found Note | NotFound | Threw

text \<open>
  The loop of the join handler over the socket's rooms (a snapshot taken before the loop):
  every note room is left on the transport and in \<^verbatim>\<open>noteRooms\<close>.
\<close>

fun leave_note_rooms :: "string list \<Rightarrow> Socket \<Rightarrow> state \<Rightarrow> state" where
  "leave_note_rooms [] sock s = s"
| "leave_note_rooms (room # rest) sock s =
     leave_note_rooms rest sock
       (if startsWith room ''note:''
        then handleUserLeaveRoom (replace_note_prefix room) (userId (sock_user sock))
               (socket_leave (sock_id sock) room s)
        else s)"

definition currentRooms :: "Socket \<Rightarrow> state \<Rightarrow> string list" where
  "currentRooms sock s = filter (\<lambda>room. room \<noteq> sock_id sock) (sids s (sock_id sock))"

text \<open>Lines 55 to 95 of the join handler: transport join, upsert, the two notifications.\<close>

definition enter_note_room :: "Socket \<Rightarrow> string \<Rightarrow> state \<Rightarrow> state" where
  "enter_note_room sock nid s0 =
     (let s1 = socket_join (sock_id sock) (roomName nid) s0;
          room = (case noteRooms s1 nid of
                    None \<Rightarrow> \<lparr>noteId = nid, users = []\<rparr>
                  | Some r \<Rightarrow> r);
          existingUserIndex = findIndex (\<lambda>u. userId u = userId (sock_user sock)) (users room);
          us = (if existingUserIndex \<ge> 0
                then (users room)[nat existingUserIndex :=
                        (users room ! nat existingUserIndex)\<lparr>socketId := sock_id sock\<rparr>]
                else users room @ [\<lparr>userId = userId (sock_user sock),
                                    username = username (sock_user sock),
                                    socketId = sock_id sock\<rparr>]);
          s2 = s1\<lparr>noteRooms := (noteRooms s1)(nid \<mapsto> room\<lparr>users := us\<rparr>)\<rparr>;
          s3 = socket_to_emit (sock_id sock) (roomName nid)
                 (UserJoined \<lparr>userId = userId (sock_user sock), username = username (sock_user sock)\<rparr>
                    (activeUsers us)) s2
      in socket_emit (sock_id sock) (JoinedNote nid (activeUsers us)) s3)"

definition join_note :: "Socket \<Rightarrow> string \<Rightarrow> Lookup \<Rightarrow> state \<Rightarrow> state" where
  "join_note sock nid res s =
     (case res of
        Threw \<Rightarrow> socket_emit (sock_id sock) (ErrorMsg ''Failed to join note'') s
      | NotFound \<Rightarrow> socket_emit (sock_id sock) (ErrorMsg ''Access denied to this note'') s
      | Found note \<Rightarrow>
          if \<not> isUserAuthorized note (userId (sock_user sock)) Read
          then socket_emit (sock_id sock) (ErrorMsg ''Access denied to this note'') s
          else enter_note_room sock nid (leave_note_rooms (currentRooms sock s) sock s))"

definition leave_note :: "Socket \<Rightarrow> string \<Rightarrow> state \<Rightarrow> state" where
  "leave_note sock nid s =
     handleUserLeaveRoom nid (userId (sock_user sock)) (socket_leave (sock_id sock) (roomName nid) s)"

definition note_update ::
  "Socket \<Rightarrow> string \<Rightarrow> string \<Rightarrow> string option \<Rightarrow> Lookup \<Rightarrow> nat \<Rightarrow> state \<Rightarrow> state" where
  "note_update sock nid content title res now s =
     (case res of
        Threw \<Rightarrow> socket_emit (sock_id sock) (ErrorMsg ''Failed to update note'') s
      | NotFound \<Rightarrow> socket_emit (sock_id sock) (ErrorMsg ''Write access denied'') s
      | Found note \<Rightarrow>
          if \<not> isUserAuthorized note (userId (sock_user sock)) Write
          then socket_emit (sock_id sock) (ErrorMsg ''Write access denied'') s
          else socket_to_emit (sock_id sock) (roomName nid)
                 (NoteUpdated nid content title
                    \<lparr>userId = userId (sock_user sock), username = username (sock_user sock)\<rparr> now) s)"

definition cursor_update ::
  "Socket \<Rightarrow> string \<Rightarrow> int \<Rightarrow> (int \<times> int) option \<Rightarrow> state \<Rightarrow> state" where
  "cursor_update sock nid position selection s =
     socket_to_emit (sock_id sock) (roomName nid)
       (CursorUpdated \<lparr>userId = userId (sock_user sock), username = username (sock_user sock)\<rparr>
          position selection) s"

text \<open>The loop of the disconnect handler: no transport leave, only \<^verbatim>\<open>handleUserLeaveRoom\<close>.\<close>

fun drop_note_rooms :: "string list \<Rightarrow> Socket \<Rightarrow> state \<Rightarrow> state" where
  "drop_note_rooms [] sock s = s"
| "drop_note_rooms (room # rest) sock s =
     drop_note_rooms rest sock
       (if startsWith room ''note:''
        then handleUserLeaveRoom (replace_note_prefix room) (userId (sock_user sock)) s
        else s)"

definition disconnect :: "Socket \<Rightarrow> state \<Rightarrow> state" where
  "disconnect sock s =
     (let s1 = drop_note_rooms (currentRooms sock s) sock s
      in s1\<lparr>userSockets := (userSockets s1)(userId (sock_user sock) := None)\<rparr>)"

text \<open>
  The transport's own cleanup when a connection closes: the socket leaves every room. The
  code does not say whether it runs before or after the disconnect handler, so it is an event
  of its own and the properties below hold for either order.
\<close>

definition transport_leave_all :: "string \<Rightarrow> state \<Rightarrow> state" where
  "transport_leave_all sid s = fold (socket_leave sid) (sids s sid) s"

section \<open>Runs of the server\<close>

datatype Event =
    Connect string "AuthPayload option"
  | JoinNote Socket string Lookup
  | LeaveNote Socket string
  | NoteUpdate Socket string string "string option" Lookup nat
  | CursorUpdate Socket string int "(int \<times> int) option"
  | Disconnect Socket
  | TransportLeaveAll string

fun step :: "state \<Rightarrow> Event \<Rightarrow> state" where
  "step s (Connect sid decoded) = connect sid decoded s"
| "step s (JoinNote sock nid res) = join_note sock nid res s"
| "step s (LeaveNote sock nid) = leave_note sock nid s"
| "step s (NoteUpdate sock nid content title res now) = note_update sock nid content title res now s"
| "step s (CursorUpdate sock nid position selection) = cursor_update sock nid position selection s"
| "step s (Disconnect sock) = disconnect sock s"
| "step s (TransportLeaveAll sid) = transport_leave_all sid s"

fun run :: "state \<Rightarrow> Event list \<Rightarrow> state" where
  "run s [] = s"
| "run s (e # es) = run (step s e) es"

section \<open>Auxiliary notions\<close>

text \<open>The two room-table invariants.\<close>

definition rooms_nonempty :: "state \<Rightarrow> bool" where
  "rooms_nonempty s = (\<forall>nid room. noteRooms s nid = Some room \<longrightarrow> users room \<noteq> [])"

definition users_distinct :: "state \<Rightarrow> bool" where
  "users_distinct s = (\<forall>nid room. noteRooms s nid = Some room \<longrightarrow> distinct (map userId (users room)))"

text \<open>The upsert of the join handler (lines 67 to 80), as a function of the member list alone.\<close>

definition upsert_user :: "Socket \<Rightarrow> SocketUser list \<Rightarrow> SocketUser list" where
  "upsert_user sock us =
     (let i = findIndex (\<lambda>u. userId u = userId (sock_user sock)) us
      in if i \<ge> 0 then us[nat i := (us ! nat i)\<lparr>socketId := sock_id sock\<rparr>]
         else us @ [\<lparr>userId = userId (sock_user sock), username = username (sock_user sock),
                     socketId = sock_id sock\<rparr>])"

definition room_or_new :: "state \<Rightarrow> string \<Rightarrow> NoteRoom" where
  "room_or_new s nid = (case noteRooms s nid of None \<Rightarrow> \<lparr>noteId = nid, users = []\<rparr> | Some r \<Rightarrow> r)"

text \<open>Removing a user from a room-table entry, as \<open>handleUserLeaveRoom\<close> leaves it.\<close>

definition without_user :: "string \<Rightarrow> NoteRoom option \<Rightarrow> NoteRoom option" where
  "without_user uid entry =
     (case entry of
        None \<Rightarrow> None
      | Some room \<Rightarrow>
          if filter (\<lambda>u. userId u \<noteq> uid) (users room) = [] then None
          else Some (room\<lparr>users := filter (\<lambda>u. userId u \<noteq> uid) (users room)\<rparr>))"

section \<open>Sample data\<close>

text \<open>
  Three authenticated sockets, a second socket of the first user, and a note owned by the
  first user, with the second as a write collaborator and the third without access; two states
  reached from the initial one.
\<close>

definition alice :: Socket where
  "alice = \<lparr>sock_id = ''s1'', sock_user = \<lparr>userId = ''u1'', username = ''alice'', email = ''alice@example.com''\<rparr>\<rparr>"

definition bob :: Socket where
  "bob = \<lparr>sock_id = ''s2'', sock_user = \<lparr>userId = ''u2'', username = ''bob'', email = ''bob@example.com''\<rparr>\<rparr>"

definition carol :: Socket where
  "carol = \<lparr>sock_id = ''s3'', sock_user = \<lparr>userId = ''u3'', username = ''carol'', email = ''carol@example.com''\<rparr>\<rparr>"

definition note1 :: Note where
  "note1 = \<lparr>owner = ''u1'', collaborators = [\<lparr>user = ''u2'', role = Write\<rparr>]\<rparr>"

definition alice_in_n1 :: state where
  "alice_in_n1 = run init_state
     [Connect ''s1'' (Some (sock_user alice)), Connect ''s2'' (Some (sock_user bob)),
      JoinNote alice ''n1'' (Found note1)]"

definition alice_again :: Socket where
  "alice_again = \<lparr>sock_id = ''s4'', sock_user = \<lparr>userId = ''u1'', username = ''alice'', email = ''alice@example.com''\<rparr>\<rparr>"

definition both_in_n1 :: state where
  "both_in_n1 = run init_state
     [Connect ''s1'' (Some (sock_user alice)), Connect ''s2'' (Some (sock_user bob)),
      JoinNote alice ''n1'' (Found note1), JoinNote bob ''n1'' (Found note1)]"

section \<open>Basic facts\<close>

lemma findIndex_bounds: "- 1 \<le> findIndex P xs \<and> findIndex P xs < int (length xs)"
  by (induction xs) (auto simp: Let_def)

lemma findIndex_nonneg_iff: "0 \<le> findIndex P xs \<longleftrightarrow> (\<exists>x \<in> set xs. P x)"
  using findIndex_bounds [of P] by (induction xs) (auto simp: Let_def)

lemma findIndex_sat: "0 \<le> findIndex P xs \<Longrightarrow> P (xs ! nat (findIndex P xs))"
proof (induction xs)
  case Nil
  then show ?case by simp
next
  case (Cons x xs)
  show ?case
  proof (cases "P x")
    case True
    then show ?thesis by simp
  next
    case False
    with Cons.prems have nn: "0 \<le> findIndex P xs"
      by (simp add: Let_def split: if_splits)
    with Cons.IH have "P (xs ! nat (findIndex P xs))" .
    moreover from nn have "nat (findIndex P xs + 1) = Suc (nat (findIndex P xs))" by simp
    ultimately show ?thesis using False nn by (simp add: Let_def)
  qed
qed

lemma noteRooms_socket_leave [simp]: "noteRooms (socket_leave sid room s) = noteRooms s"
  by (simp add: socket_leave_def)

lemma noteRooms_socket_join [simp]: "noteRooms (socket_join sid room s) = noteRooms s"
  by (simp add: socket_join_def)

lemma noteRooms_socket_emit [simp]: "noteRooms (socket_emit sid m s) = noteRooms s"
  by (simp add: socket_emit_def)

lemma noteRooms_socket_to_emit [simp]: "noteRooms (socket_to_emit sid room m s) = noteRooms s"
  by (simp add: socket_to_emit_def)

lemma noteRooms_io_to_emit [simp]: "noteRooms (io_to_emit room m s) = noteRooms s"
  by (simp add: io_to_emit_def)

text \<open>What \<open>handleUserLeaveRoom\<close> does to the room table, one key at a time.\<close>

lemma noteRooms_handleUserLeaveRoom:
  "noteRooms (handleUserLeaveRoom nid uid s) k =
     (if k = nid
      then (case noteRooms s nid of
              None \<Rightarrow> None
            | Some room \<Rightarrow>
                if filter (\<lambda>u. userId u \<noteq> uid) (users room) = [] then None
                else Some (room\<lparr>users := filter (\<lambda>u. userId u \<noteq> uid) (users room)\<rparr>))
      else noteRooms s k)"
  by (simp add: handleUserLeaveRoom_def Let_def split: option.splits)

lemma rooms_nonempty_handleUserLeaveRoom:
  "rooms_nonempty s \<Longrightarrow> rooms_nonempty (handleUserLeaveRoom nid uid s)"
  unfolding rooms_nonempty_def noteRooms_handleUserLeaveRoom
  by (auto split: option.splits if_splits)

lemma users_distinct_handleUserLeaveRoom:
  "users_distinct s \<Longrightarrow> users_distinct (handleUserLeaveRoom nid uid s)"
  unfolding users_distinct_def noteRooms_handleUserLeaveRoom
  by (auto split: option.splits if_splits simp: distinct_map_filter)

lemma rooms_nonempty_leave_note_rooms:
  "rooms_nonempty s \<Longrightarrow> rooms_nonempty (leave_note_rooms rs sock s)"
proof (induction rs arbitrary: s)
  case Nil
  then show ?case by simp
next
  case (Cons room rest)
  have "rooms_nonempty (socket_leave (sock_id sock) room s)"
    using Cons.prems by (simp add: rooms_nonempty_def)
  then show ?case
    using Cons by (simp add: rooms_nonempty_handleUserLeaveRoom)
qed

lemma users_distinct_leave_note_rooms:
  "users_distinct s \<Longrightarrow> users_distinct (leave_note_rooms rs sock s)"
proof (induction rs arbitrary: s)
  case Nil
  then show ?case by simp
next
  case (Cons room rest)
  have "users_distinct (socket_leave (sock_id sock) room s)"
    using Cons.prems by (simp add: users_distinct_def)
  then show ?case
    using Cons by (simp add: users_distinct_handleUserLeaveRoom)
qed

lemma rooms_nonempty_drop_note_rooms:
  "rooms_nonempty s \<Longrightarrow> rooms_nonempty (drop_note_rooms rs sock s)"
  by (induction rs arbitrary: s) (simp_all add: rooms_nonempty_handleUserLeaveRoom)

lemma users_distinct_drop_note_rooms:
  "users_distinct s \<Longrightarrow> users_distinct (drop_note_rooms rs sock s)"
  by (induction rs arbitrary: s) (simp_all add: users_distinct_handleUserLeaveRoom)

lemma noteRooms_enter_note_room:
  "noteRooms (enter_note_room sock nid s) =
     (noteRooms s)(nid \<mapsto> (room_or_new s nid)\<lparr>users := upsert_user sock (users (room_or_new s nid))\<rparr>)"
  by (simp add: enter_note_room_def Let_def upsert_user_def room_or_new_def)

lemma upsert_user_nonempty: "upsert_user sock us \<noteq> []"
  using findIndex_nonneg_iff [of "\<lambda>u. userId u = userId (sock_user sock)" us]
  by (auto simp: upsert_user_def Let_def)

lemma map_update_same: "(map f xs)[i := f (xs ! i)] = map f xs"
proof -
  have "(map f xs)[i := f (xs ! i)] = map f (xs[i := xs ! i])"
    by (simp only: map_update)
  then show ?thesis by simp
qed

lemma map_userId_upsert_user:
  "map userId (upsert_user sock us) =
     (if \<exists>u \<in> set us. userId u = userId (sock_user sock) then map userId us
      else map userId us @ [userId (sock_user sock)])"
  using findIndex_nonneg_iff [of "\<lambda>u. userId u = userId (sock_user sock)" us]
  by (auto simp: upsert_user_def Let_def map_update map_update_same)

lemma upsert_user_distinct:
  "distinct (map userId us) \<Longrightarrow> distinct (map userId (upsert_user sock us))"
  by (auto simp: map_userId_upsert_user)

lemma rooms_nonempty_enter_note_room:
  "rooms_nonempty s \<Longrightarrow> rooms_nonempty (enter_note_room sock nid s)"
  unfolding rooms_nonempty_def noteRooms_enter_note_room
  by (auto simp: upsert_user_nonempty)

lemma users_distinct_enter_note_room:
  "users_distinct s \<Longrightarrow> users_distinct (enter_note_room sock nid s)"
  unfolding users_distinct_def noteRooms_enter_note_room
  by (auto simp: upsert_user_distinct room_or_new_def split: option.splits)

lemma noteRooms_fold_socket_leave [simp]:
  "noteRooms (fold (socket_leave sid) rs s) = noteRooms s"
  by (induction rs arbitrary: s) simp_all

lemma noteRooms_connect [simp]: "noteRooms (connect sid decoded s) = noteRooms s"
  by (simp add: connect_def split: option.splits)

lemma noteRooms_note_update [simp]:
  "noteRooms (note_update sock nid content title res now s) = noteRooms s"
  by (simp add: note_update_def split: Lookup.splits)

lemma noteRooms_cursor_update [simp]:
  "noteRooms (cursor_update sock nid position selection s) = noteRooms s"
  by (simp add: cursor_update_def)

lemma noteRooms_transport_leave_all [simp]: "noteRooms (transport_leave_all sid s) = noteRooms s"
  by (simp add: transport_leave_all_def)

lemma rooms_nonempty_join_note:
  "rooms_nonempty s \<Longrightarrow> rooms_nonempty (join_note sock nid res s)"
proof (cases res)
  case (Found n)
  assume "rooms_nonempty s"
  then have "rooms_nonempty (enter_note_room sock nid (leave_note_rooms (currentRooms sock s) sock s))"
    by (intro rooms_nonempty_enter_note_room rooms_nonempty_leave_note_rooms)
  moreover have "rooms_nonempty (socket_emit (sock_id sock) m s)" for m
    using \<open>rooms_nonempty s\<close> by (simp add: rooms_nonempty_def)
  ultimately show ?thesis using Found by (simp add: join_note_def)
qed (simp_all add: join_note_def rooms_nonempty_def)

lemma users_distinct_join_note:
  "users_distinct s \<Longrightarrow> users_distinct (join_note sock nid res s)"
proof (cases res)
  case (Found n)
  assume "users_distinct s"
  then have "users_distinct (enter_note_room sock nid (leave_note_rooms (currentRooms sock s) sock s))"
    by (intro users_distinct_enter_note_room users_distinct_leave_note_rooms)
  moreover have "users_distinct (socket_emit (sock_id sock) m s)" for m
    using \<open>users_distinct s\<close> by (simp add: users_distinct_def)
  ultimately show ?thesis using Found by (simp add: join_note_def)
qed (simp_all add: join_note_def users_distinct_def)

lemma rooms_nonempty_step: "rooms_nonempty s \<Longrightarrow> rooms_nonempty (step s e)"
proof (cases e)
  case (JoinNote sock nid res)
  then show "rooms_nonempty s \<Longrightarrow> ?thesis" by (simp add: rooms_nonempty_join_note)
next
  case (LeaveNote sock nid)
  assume "rooms_nonempty s"
  then have "rooms_nonempty (socket_leave (sock_id sock) (roomName nid) s)"
    by (simp add: rooms_nonempty_def)
  then show ?thesis using LeaveNote by (simp add: leave_note_def rooms_nonempty_handleUserLeaveRoom)
next
  case (Disconnect sock)
  assume "rooms_nonempty s"
  then have "rooms_nonempty (drop_note_rooms (currentRooms sock s) sock s)"
    by (rule rooms_nonempty_drop_note_rooms)
  then show ?thesis using Disconnect by (simp add: disconnect_def Let_def rooms_nonempty_def)
qed (simp_all add: rooms_nonempty_def)

lemma users_distinct_step: "users_distinct s \<Longrightarrow> users_distinct (step s e)"
proof (cases e)
  case (JoinNote sock nid res)
  then show "users_distinct s \<Longrightarrow> ?thesis" by (simp add: users_distinct_join_note)
next
  case (LeaveNote sock nid)
  assume "users_distinct s"
  then have "users_distinct (socket_leave (sock_id sock) (roomName nid) s)"
    by (simp add: users_distinct_def)
  then show ?thesis using LeaveNote by (simp add: leave_note_def users_distinct_handleUserLeaveRoom)
next
  case (Disconnect sock)
  assume "users_distinct s"
  then have "users_distinct (drop_note_rooms (currentRooms sock s) sock s)"
    by (rule users_distinct_drop_note_rooms)
  then show ?thesis using Disconnect by (simp add: disconnect_def Let_def users_distinct_def)
qed (simp_all add: users_distinct_def)

lemma rooms_nonempty_run: "rooms_nonempty s \<Longrightarrow> rooms_nonempty (run s evs)"
  by (induction evs arbitrary: s) (simp_all add: rooms_nonempty_step)

lemma users_distinct_run: "users_distinct s \<Longrightarrow> users_distinct (run s evs)"
  by (induction evs arbitrary: s) (simp_all add: users_distinct_step)

lemma rooms_nonempty_init: "rooms_nonempty init_state"
  by (simp add: rooms_nonempty_def init_state_def)

lemma users_distinct_init: "users_distinct init_state"
  by (simp add: users_distinct_def init_state_def)

lemma without_user_idem [simp]: "without_user uid (without_user uid entry) = without_user uid entry"
  by (simp add: without_user_def split: option.splits)

lemma noteRooms_handleUserLeaveRoom':
  "noteRooms (handleUserLeaveRoom nid uid s) =
     (noteRooms s)(nid := without_user uid (noteRooms s nid))"
  by (rule ext) (simp add: noteRooms_handleUserLeaveRoom without_user_def)

lemma startsWith_roomName [simp]: "startsWith (roomName nid) ''note:''"
  by (simp add: startsWith_def roomName_def)

lemma replace_note_prefix_roomName [simp]: "replace_note_prefix (roomName nid) = nid"
  by (simp add: replace_note_prefix_def roomName_def)

lemma roomName_replace_note_prefix:
  "startsWith room ''note:'' \<Longrightarrow> roomName (replace_note_prefix room) = room"
proof -
  assume "startsWith room ''note:''"
  then have "take 5 room = ''note:''" by (simp add: startsWith_def eval_nat_numeral)
  then have "''note:'' @ drop 5 room = take 5 room @ drop 5 room" by simp
  then show ?thesis by (simp add: roomName_def replace_note_prefix_def)
qed

lemma roomName_inj [simp]: "roomName a = roomName b \<longleftrightarrow> a = b"
  by (simp add: roomName_def)

lemma noteRooms_leave_note_rooms:
  "noteRooms (leave_note_rooms rs sock s) nid =
     (if roomName nid \<in> set rs then without_user (userId (sock_user sock)) (noteRooms s nid)
      else noteRooms s nid)"
proof (induction rs arbitrary: s)
  case Nil
  then show ?case by simp
next
  case (Cons room rest)
  show ?case
  proof (cases "startsWith room ''note:''")
    case False
    then have "room \<noteq> roomName nid" by auto
    with False Cons.IH show ?thesis by simp
  next
    case True
    show ?thesis
    proof (cases "room = roomName nid")
      case True
      then show ?thesis
        by (simp add: Cons.IH noteRooms_handleUserLeaveRoom')
    next
      case False
      have "replace_note_prefix room \<noteq> nid"
      proof
        assume "replace_note_prefix room = nid"
        with roomName_replace_note_prefix [OF True] have "roomName nid = room" by simp
        with False show False by simp
      qed
      with True False show ?thesis
        by (simp add: Cons.IH noteRooms_handleUserLeaveRoom')
    qed
  qed
qed

lemmas handler_defs = init_state_def set_add_def socket_join_def socket_leave_def socket_emit_def
  socket_to_emit_def io_to_emit_def roomName_def startsWith_def replace_note_prefix_def
  activeUsers_def handleUserLeaveRoom_def getActiveUsersInNote_def connect_def currentRooms_def
  enter_note_room_def join_note_def leave_note_def note_update_def cursor_update_def
  disconnect_def transport_leave_all_def isUserAuthorized_def Let_def

lemmas sample_defs = alice_def bob_def carol_def alice_again_def note1_def

lemma alice_in_n1_eval:
  "alice_in_n1 =
     \<lparr>noteRooms = [''n1'' \<mapsto> \<lparr>noteId = ''n1'', users = [\<lparr>userId = ''u1'', username = ''alice'', socketId = ''s1''\<rparr>]\<rparr>],
      userSockets = [''u1'' \<mapsto> ''s1'', ''u2'' \<mapsto> ''s2''],
      sids = ((\<lambda>_. [])(''s1'' := [''s1'', ''note:n1''], ''s2'' := [''s2''])),
      rooms = ((\<lambda>_. [])(''s1'' := [''s1''], ''s2'' := [''s2''], ''note:n1'' := [''s1''])),
      sent = [(''s1'', JoinedNote ''n1'' [\<lparr>userId = ''u1'', username = ''alice''\<rparr>])]\<rparr>"
  by (simp add: alice_in_n1_def handler_defs sample_defs fun_upd_twist)

lemma both_in_n1_eval:
  "both_in_n1 =
     \<lparr>noteRooms = [''n1'' \<mapsto> \<lparr>noteId = ''n1'', users =
          [\<lparr>userId = ''u1'', username = ''alice'', socketId = ''s1''\<rparr>,
           \<lparr>userId = ''u2'', username = ''bob'', socketId = ''s2''\<rparr>]\<rparr>],
      userSockets = [''u1'' \<mapsto> ''s1'', ''u2'' \<mapsto> ''s2''],
      sids = ((\<lambda>_. [])(''s1'' := [''s1'', ''note:n1''], ''s2'' := [''s2'', ''note:n1''])),
      rooms = ((\<lambda>_. [])(''s1'' := [''s1''], ''s2'' := [''s2''], ''note:n1'' := [''s1'', ''s2''])),
      sent = [(''s1'', JoinedNote ''n1'' [\<lparr>userId = ''u1'', username = ''alice''\<rparr>]),
              (''s1'', UserJoined \<lparr>userId = ''u2'', username = ''bob''\<rparr>
                 [\<lparr>userId = ''u1'', username = ''alice''\<rparr>, \<lparr>userId = ''u2'', username = ''bob''\<rparr>]),
              (''s2'', JoinedNote ''n1''
                 [\<lparr>userId = ''u1'', username = ''alice''\<rparr>, \<lparr>userId = ''u2'', username = ''bob''\<rparr>])]\<rparr>"
  by (simp add: both_in_n1_def handler_defs sample_defs fun_upd_twist)

section \<open>Rejoining a room\<close>

lemma length_filter_other_users:
  "distinct (map userId us) \<Longrightarrow> \<exists>u \<in> set us. userId u = uid \<Longrightarrow>
   Suc (length (filter (\<lambda>u. userId u \<noteq> uid) us)) = length us"
proof (induction us)
  case Nil
  then show ?case by simp
next
  case (Cons a us)
  show ?case
  proof (cases "userId a = uid")
    case True
    from Cons.prems(1) have "userId a \<notin> userId ` set us" by simp
    with True have "\<forall>u \<in> set us. userId u \<noteq> uid" by blast
    then have "filter (\<lambda>u. userId u \<noteq> uid) us = us" by (simp add: filter_id_conv)
    with True show ?thesis by simp
  next
    case False
    with Cons.prems have "\<exists>u \<in> set us. userId u = uid" and "distinct (map userId us)" by simp_all
    with Cons.IH False show ?thesis by simp
  qed
qed

lemma upsert_user_absent:
  "\<forall>u \<in> set us. userId u \<noteq> userId (sock_user sock) \<Longrightarrow>
   upsert_user sock us =
     us @ [\<lparr>userId = userId (sock_user sock), username = username (sock_user sock),
             socketId = sock_id sock\<rparr>]"
  using findIndex_nonneg_iff [of "\<lambda>u. userId u = userId (sock_user sock)" us]
  by (auto simp: upsert_user_def Let_def)

lemma upsert_user_present:
  assumes "\<exists>u \<in> set us. userId u = userId (sock_user sock)"
  shows "\<exists>i < length us. userId (us ! i) = userId (sock_user sock)
           \<and> upsert_user sock us = us[i := (us ! i)\<lparr>socketId := sock_id sock\<rparr>]"
proof -
  let ?P = "\<lambda>u. userId u = userId (sock_user sock)"
  from assms have nn: "0 \<le> findIndex ?P us" by (simp add: findIndex_nonneg_iff)
  have "findIndex ?P us < int (length us)" using findIndex_bounds [of ?P us] by simp
  with nn have "nat (findIndex ?P us) < length us" by simp
  moreover have "?P (us ! nat (findIndex ?P us))" using nn by (rule findIndex_sat)
  moreover have "upsert_user sock us =
      us[nat (findIndex ?P us) := (us ! nat (findIndex ?P us))\<lparr>socketId := sock_id sock\<rparr>]"
    using nn by (simp add: upsert_user_def Let_def)
  ultimately show ?thesis by blast
qed

lemma join_note_authorized:
  "isUserAuthorized n (userId (sock_user sock)) Read \<Longrightarrow>
   join_note sock nid (Found n) s =
     enter_note_room sock nid (leave_note_rooms (currentRooms sock s) sock s)"
  by (simp add: join_note_def)

text \<open>The room entry a join leaves behind, from the entry the leave loop left.\<close>

lemma noteRooms_enter_note_room_at:
  "noteRooms (enter_note_room sock nid s) nid =
     Some ((room_or_new s nid)\<lparr>users := upsert_user sock (users (room_or_new s nid))\<rparr>)"
  by (simp add: noteRooms_enter_note_room)

lemma noteRooms_enter_note_room_other:
  "k \<noteq> nid \<Longrightarrow> noteRooms (enter_note_room sock nid s) k = noteRooms s k"
  by (simp add: noteRooms_enter_note_room)

lemma rejoin_in_place:
  assumes auth: "isUserAuthorized n (userId (sock_user sock)) Read"
    and room: "noteRooms s nid = Some room"
    and member: "\<exists>u \<in> set (users room). userId u = userId (sock_user sock)"
    and out: "roomName nid \<notin> set (currentRooms sock s)"
  shows "\<exists>room'. noteRooms (join_note sock nid (Found n) s) nid = Some room'
           \<and> (\<exists>i < length (users room). userId (users room ! i) = userId (sock_user sock)
                 \<and> users room' = (users room)[i := (users room ! i)\<lparr>socketId := sock_id sock\<rparr>])"
proof -
  let ?s1 = "leave_note_rooms (currentRooms sock s) sock s"
  let ?room' = "room\<lparr>users := upsert_user sock (users room)\<rparr>"
  have "noteRooms ?s1 nid = Some room"
    using out room by (simp add: noteRooms_leave_note_rooms)
  then have "room_or_new ?s1 nid = room" by (simp add: room_or_new_def)
  then have eq: "noteRooms (join_note sock nid (Found n) s) nid = Some ?room'"
    by (simp only: join_note_authorized [OF auth] noteRooms_enter_note_room_at)
  from upsert_user_present [OF member] obtain i where
    i: "i < length (users room)" "userId (users room ! i) = userId (sock_user sock)"
    and u: "upsert_user sock (users room) = (users room)[i := (users room ! i)\<lparr>socketId := sock_id sock\<rparr>]"
    by blast
  have u': "users ?room' = (users room)[i := (users room ! i)\<lparr>socketId := sock_id sock\<rparr>]"
    by (simp add: u)
  from i u' have "\<exists>i < length (users room). userId (users room ! i) = userId (sock_user sock)
      \<and> users ?room' = (users room)[i := (users room ! i)\<lparr>socketId := sock_id sock\<rparr>]"
    by blast
  with eq show ?thesis by blast
qed

lemma rejoin_from_inside:
  assumes auth: "isUserAuthorized n (userId (sock_user sock)) Read"
    and room: "noteRooms s nid = Some room"
    and inside: "roomName nid \<in> set (currentRooms sock s)"
  shows "\<exists>room'. noteRooms (join_note sock nid (Found n) s) nid = Some room'
           \<and> users room' = filter (\<lambda>u. userId u \<noteq> userId (sock_user sock)) (users room) @
               [\<lparr>userId = userId (sock_user sock), username = username (sock_user sock),
                 socketId = sock_id sock\<rparr>]"
proof -
  let ?s1 = "leave_note_rooms (currentRooms sock s) sock s"
  let ?rest = "filter (\<lambda>u. userId u \<noteq> userId (sock_user sock)) (users room)"
  let ?new = "\<lparr>userId = userId (sock_user sock), username = username (sock_user sock),
                socketId = sock_id sock\<rparr>"
  let ?room' = "(room_or_new ?s1 nid)\<lparr>users := upsert_user sock (users (room_or_new ?s1 nid))\<rparr>"
  have "noteRooms ?s1 nid = without_user (userId (sock_user sock)) (Some room)"
    using inside room by (simp add: noteRooms_leave_note_rooms)
  then have rest: "users (room_or_new ?s1 nid) = ?rest"
    by (simp add: room_or_new_def without_user_def)
  have "upsert_user sock ?rest = ?rest @ [?new]"
    by (rule upsert_user_absent) simp
  then have u: "users ?room' = ?rest @ [?new]"
    by (simp add: rest)
  have eq: "noteRooms (join_note sock nid (Found n) s) nid = Some ?room'"
    by (simp only: join_note_authorized [OF auth] noteRooms_enter_note_room_at)
  from eq u show ?thesis by blast
qed

lemma rejoin_shape:
  assumes auth: "isUserAuthorized n (userId (sock_user sock)) Read"
    and room: "noteRooms s nid = Some room"
    and member: "\<exists>u \<in> set (users room). userId u = userId (sock_user sock)"
    and dist: "distinct (map userId (users room))"
  shows "\<exists>room'. noteRooms (join_note sock nid (Found n) s) nid = Some room'
           \<and> length (users room') = length (users room)
           \<and> (if roomName nid \<in> set (currentRooms sock s)
               then users room' = filter (\<lambda>u. userId u \<noteq> userId (sock_user sock)) (users room) @
                      [\<lparr>userId = userId (sock_user sock), username = username (sock_user sock),
                        socketId = sock_id sock\<rparr>]
               else \<exists>i < length (users room). userId (users room ! i) = userId (sock_user sock)
                      \<and> users room' = (users room)[i := (users room ! i)\<lparr>socketId := sock_id sock\<rparr>])"
proof (cases "roomName nid \<in> set (currentRooms sock s)")
  case True
  from rejoin_from_inside [OF auth room True] obtain room' where
    r: "noteRooms (join_note sock nid (Found n) s) nid = Some room'"
    and u: "users room' = filter (\<lambda>u. userId u \<noteq> userId (sock_user sock)) (users room) @
             [\<lparr>userId = userId (sock_user sock), username = username (sock_user sock),
               socketId = sock_id sock\<rparr>]"
    by blast
  have "Suc (length (filter (\<lambda>u. userId u \<noteq> userId (sock_user sock)) (users room)))
      = length (users room)"
    using dist member by (rule length_filter_other_users)
  then have len: "length (users room') = length (users room)"
    by (simp only: u length_append list.size)
  show ?thesis
    apply (rule exI [of _ room'])
    apply (simp only: True if_True)
    apply (intro conjI r len u)
    done
next
  case False
  from rejoin_in_place [OF auth room member False] obtain room' i where
    r: "noteRooms (join_note sock nid (Found n) s) nid = Some room'"
    and i: "i < length (users room)" "userId (users room ! i) = userId (sock_user sock)"
    and u: "users room' = (users room)[i := (users room ! i)\<lparr>socketId := sock_id sock\<rparr>]"
    by blast
  have len: "length (users room') = length (users room)"
    by (simp only: u length_list_update)
  have ex: "\<exists>i < length (users room). userId (users room ! i) = userId (sock_user sock)
              \<and> users room' = (users room)[i := (users room ! i)\<lparr>socketId := sock_id sock\<rparr>]"
    using i u by blast
  show ?thesis
    apply (rule exI [of _ room'])
    apply (simp only: False if_False)
    apply (intro conjI r len ex)
    done
qed

section \<open>Messages of a room switch\<close>

text \<open>The transport rooms and the message log under the leave loop.\<close>

lemma rooms_handleUserLeaveRoom [simp]: "rooms (handleUserLeaveRoom nid uid s) = rooms s"
  by (simp add: handleUserLeaveRoom_def io_to_emit_def Let_def split: option.splits)

lemma rooms_leave_note_rooms:
  "rooms (leave_note_rooms rs sock s) rn =
     (if rn \<in> set rs \<and> startsWith rn ''note:'' then removeAll (sock_id sock) (rooms s rn)
      else rooms s rn)"
proof (induction rs arbitrary: s)
  case Nil
  then show ?case by simp
next
  case (Cons room rest)
  show ?case
    by (cases "room = rn") (auto simp: Cons.IH socket_leave_def)
qed

lemma sent_handleUserLeaveRoom:
  "sent (handleUserLeaveRoom nid uid s) =
     sent s @ (case noteRooms (handleUserLeaveRoom nid uid s) nid of
                 None \<Rightarrow> []
               | Some room \<Rightarrow>
                   map (\<lambda>r. (r, UserLeft uid (activeUsers (users room)))) (rooms s (roomName nid)))"
  by (simp add: handleUserLeaveRoom_def io_to_emit_def Let_def split: option.splits)

lemma sent_handleUserLeaveRoom_ex:
  "\<exists>ls. sent (handleUserLeaveRoom nid uid s) = sent s @ ls \<and> (\<forall>x \<in> set ls. \<exists>us. snd x = UserLeft uid us)"
proof -
  let ?ls = "case noteRooms (handleUserLeaveRoom nid uid s) nid of
                 None \<Rightarrow> []
               | Some room \<Rightarrow>
                   map (\<lambda>r. (r, UserLeft uid (activeUsers (users room)))) (rooms s (roomName nid))"
  have "\<forall>x \<in> set ?ls. \<exists>us. snd x = UserLeft uid us"
    by (auto split: option.splits)
  with sent_handleUserLeaveRoom [of nid uid s] show ?thesis by blast
qed

lemma sent_leave_note_rooms:
  "\<exists>ls. sent (leave_note_rooms rs sock s) = sent s @ ls
        \<and> (\<forall>x \<in> set ls. (\<exists>us. snd x = UserLeft (userId (sock_user sock)) us))"
proof (induction rs arbitrary: s)
  case Nil
  then show ?case by simp
next
  case (Cons room rest)
  let ?s' = "if startsWith room ''note:''
        then handleUserLeaveRoom (replace_note_prefix room) (userId (sock_user sock))
               (socket_leave (sock_id sock) room s)
        else s"
  have "\<exists>l0. sent ?s' = sent s @ l0 \<and> (\<forall>x \<in> set l0. (\<exists>us. snd x = UserLeft (userId (sock_user sock)) us))"
  proof (cases "startsWith room ''note:''")
    case True
    have "sent (socket_leave (sock_id sock) room s) = sent s" by (simp add: socket_leave_def)
    with sent_handleUserLeaveRoom_ex
      [of "replace_note_prefix room" "userId (sock_user sock)" "socket_leave (sock_id sock) room s"]
    show ?thesis using True by simp
  next
    case False
    then show ?thesis by simp
  qed
  then obtain l0 where l0: "sent ?s' = sent s @ l0"
    "\<forall>x \<in> set l0. (\<exists>us. snd x = UserLeft (userId (sock_user sock)) us)" by blast
  from Cons.IH [of ?s'] obtain l1 where l1: "sent (leave_note_rooms rest sock ?s') = sent ?s' @ l1"
    "\<forall>x \<in> set l1. (\<exists>us. snd x = UserLeft (userId (sock_user sock)) us)" by blast
  have "sent (leave_note_rooms (room # rest) sock s) = sent s @ (l0 @ l1)"
    using l0(1) l1(1) by simp
  moreover have "\<forall>x \<in> set (l0 @ l1). (\<exists>us. snd x = UserLeft (userId (sock_user sock)) us)"
    using l0(2) l1(2) by auto
  ultimately show ?case by blast
qed

lemma user_left_delivered:
  "roomName a \<in> set rs \<Longrightarrow> noteRooms (leave_note_rooms rs sock s) a = Some room \<Longrightarrow>
   r \<in> set (rooms (leave_note_rooms rs sock s) (roomName a)) \<Longrightarrow>
   (r, UserLeft (userId (sock_user sock)) (activeUsers (users room)))
     \<in> set (drop (length (sent s)) (sent (leave_note_rooms rs sock s)))"
proof (induction rs arbitrary: s)
  case Nil
  then show ?case by simp
next
  case (Cons x rest)
  let ?uid = "userId (sock_user sock)"
  let ?msg = "(r, UserLeft ?uid (activeUsers (users room)))"
  let ?s' = "if startsWith x ''note:''
        then handleUserLeaveRoom (replace_note_prefix x) ?uid (socket_leave (sock_id sock) x s)
        else s"
  have final: "leave_note_rooms (x # rest) sock s = leave_note_rooms rest sock ?s'" by simp
  obtain l0 where l0: "sent ?s' = sent s @ l0"
    using sent_leave_note_rooms [of "[x]" sock s] by auto
  show ?case
  proof (cases "roomName a \<in> set rest")
    case True
    from Cons.prems have "noteRooms (leave_note_rooms rest sock ?s') a = Some room"
      and "r \<in> set (rooms (leave_note_rooms rest sock ?s') (roomName a))"
      by (simp_all only: final)
    with Cons.IH [OF True] have m: "?msg \<in> set (drop (length (sent ?s')) (sent (leave_note_rooms rest sock ?s')))"
      by blast
    have le: "length (sent s) \<le> length (sent ?s')" by (simp only: l0 length_append le_add1)
    have "?msg \<in> set (drop (length (sent s)) (sent (leave_note_rooms rest sock ?s')))"
      by (rule subsetD [OF set_drop_subset_set_drop [OF le] m])
    then show ?thesis by (simp only: final)
  next
    case False
    with Cons.prems(1) have x: "x = roomName a" by simp
    let ?s0 = "socket_leave (sock_id sock) (roomName a) s"
    have s': "?s' = handleUserLeaveRoom a ?uid ?s0" by (simp add: x)
    have "noteRooms (leave_note_rooms rest sock ?s') a = noteRooms ?s' a"
      using False by (simp only: noteRooms_leave_note_rooms if_False)
    with Cons.prems(2) have room: "noteRooms ?s' a = Some room" by (simp only: final)
    have "rooms (leave_note_rooms rest sock ?s') (roomName a) = rooms ?s' (roomName a)"
      using False by (simp add: rooms_leave_note_rooms)
    with Cons.prems(3) have "r \<in> set (rooms ?s' (roomName a))" by (simp only: final)
    then have r: "r \<in> set (rooms ?s0 (roomName a))" by (simp only: s' rooms_handleUserLeaveRoom)
    have "sent (handleUserLeaveRoom a ?uid ?s0) =
        sent ?s0 @ map (\<lambda>r. (r, UserLeft ?uid (activeUsers (users room)))) (rooms ?s0 (roomName a))"
      using sent_handleUserLeaveRoom [of a ?uid ?s0] room [unfolded s'] by (simp only: option.case)
    moreover have "sent ?s0 = sent s" by (simp add: socket_leave_def)
    ultimately have first: "sent (handleUserLeaveRoom a ?uid ?s0) =
        sent s @ map (\<lambda>r. (r, UserLeft ?uid (activeUsers (users room)))) (rooms ?s0 (roomName a))"
      by (rule back_subst [where P = "\<lambda>l. _ = l @ _"])
    obtain l1 where l1: "sent (leave_note_rooms rest sock ?s') = sent ?s' @ l1"
      using sent_leave_note_rooms [of rest sock ?s'] by blast
    have "sent (leave_note_rooms rest sock ?s') =
        sent s @ (map (\<lambda>r. (r, UserLeft ?uid (activeUsers (users room)))) (rooms ?s0 (roomName a)) @ l1)"
      using l1 [unfolded s'] first by (simp only: s' append_assoc)
    then have "drop (length (sent s)) (sent (leave_note_rooms rest sock ?s')) =
        map (\<lambda>r. (r, UserLeft ?uid (activeUsers (users room)))) (rooms ?s0 (roomName a)) @ l1"
      by simp
    with r have "?msg \<in> set (drop (length (sent s)) (sent (leave_note_rooms rest sock ?s')))"
      by simp
    then show ?thesis by (simp only: final)
  qed
qed

lemma rooms_enter_note_room:
  "rooms (enter_note_room sock nid s) = rooms (socket_join (sock_id sock) (roomName nid) s)"
  by (simp add: enter_note_room_def Let_def socket_emit_def socket_to_emit_def)

lemma rooms_socket_join:
  "rooms (socket_join sid room s) rn = (if rn = room then set_add sid (rooms s room) else rooms s rn)"
  by (simp add: socket_join_def)

lemma set_set_add [simp]: "set (set_add x xs) = insert x (set xs)"
  by (auto simp: set_add_def)

lemma sent_enter_note_room:
  "sent (enter_note_room sock nid s) =
     sent s @
     map (\<lambda>r. (r, UserJoined \<lparr>userId = userId (sock_user sock), username = username (sock_user sock)\<rparr>
                    (activeUsers (upsert_user sock (users (room_or_new s nid))))))
         (filter (\<lambda>r. r \<noteq> sock_id sock) (rooms (enter_note_room sock nid s) (roomName nid))) @
     [(sock_id sock, JoinedNote nid (activeUsers (upsert_user sock (users (room_or_new s nid)))))]"
  by (simp add: enter_note_room_def Let_def socket_emit_def socket_to_emit_def upsert_user_def
      room_or_new_def socket_join_def)

lemma upsert_user_has_joiner:
  "\<exists>u \<in> set (upsert_user sock us). userId u = userId (sock_user sock) \<and> socketId u = sock_id sock"
proof (cases "\<exists>u \<in> set us. userId u = userId (sock_user sock)")
  case True
  from upsert_user_present [OF True] obtain i where
    i: "i < length us" "userId (us ! i) = userId (sock_user sock)"
    and u: "upsert_user sock us = us[i := (us ! i)\<lparr>socketId := sock_id sock\<rparr>]"
    by blast
  have "(us ! i)\<lparr>socketId := sock_id sock\<rparr> \<in> set (upsert_user sock us)"
    unfolding u using i(1) by (rule set_update_memI)
  moreover have "userId ((us ! i)\<lparr>socketId := sock_id sock\<rparr>) = userId (sock_user sock)"
    using i(2) by simp
  moreover have "socketId ((us ! i)\<lparr>socketId := sock_id sock\<rparr>) = sock_id sock" by simp
  ultimately show ?thesis by blast
next
  case False
  then have "upsert_user sock us =
     us @ [\<lparr>userId = userId (sock_user sock), username = username (sock_user sock),
             socketId = sock_id sock\<rparr>]"
    by (intro upsert_user_absent) blast
  then show ?thesis by simp
qed

lemma without_user_Some:
  "without_user uid entry = Some room \<Longrightarrow>
   (\<forall>u \<in> set (users room). userId u \<noteq> uid)
   \<and> (\<exists>room0. entry = Some room0 \<and> set (users room) \<subseteq> set (users room0))"
  by (auto simp: without_user_def split: option.splits if_splits)

lemma in_currentRooms_note:
  "roomName a \<in> set (currentRooms sock s) \<Longrightarrow>
   noteRooms (leave_note_rooms (currentRooms sock s) sock s) a =
     without_user (userId (sock_user sock)) (noteRooms s a)"
  by (simp add: noteRooms_leave_note_rooms)

text \<open>The state between the leave loop and the join proper, when the socket was in room \<open>a\<close>.\<close>

lemma after_leave_user_gone:
  assumes "roomName a \<in> set (currentRooms sock s)"
    and "noteRooms (leave_note_rooms (currentRooms sock s) sock s) a = Some room"
  shows "\<forall>u \<in> set (users room). userId u \<noteq> userId (sock_user sock)"
  using assms without_user_Some [of "userId (sock_user sock)" "noteRooms s a" room]
  by (simp only: in_currentRooms_note) blast

lemma after_leave_socket_gone:
  assumes "roomName a \<in> set (currentRooms sock s)"
  shows "sock_id sock \<notin> set (rooms (leave_note_rooms (currentRooms sock s) sock s) (roomName a))"
  using assms by (simp add: rooms_leave_note_rooms)

lemma after_leave_nobody_added:
  assumes "noteRooms (leave_note_rooms rs sock s) b = Some room1"
  shows "\<exists>room0. noteRooms s b = Some room0 \<and> set (users room1) \<subseteq> set (users room0)"
proof (cases "roomName b \<in> set rs")
  case True
  with assms have "without_user (userId (sock_user sock)) (noteRooms s b) = Some room1"
    by (simp add: noteRooms_leave_note_rooms)
  then show ?thesis by (rule without_user_Some [THEN conjunct2])
next
  case False
  with assms have "noteRooms s b = Some room1" by (simp add: noteRooms_leave_note_rooms)
  then show ?thesis by simp
qed

lemma after_enter_other_room:
  assumes "a \<noteq> b"
  shows "noteRooms (enter_note_room sock b s) a = noteRooms s a"
    and "rooms (enter_note_room sock b s) (roomName a) = rooms s (roomName a)"
  using assms by (simp_all add: noteRooms_enter_note_room rooms_enter_note_room rooms_socket_join)

lemma after_enter_joiner_present:
  "\<exists>room. noteRooms (enter_note_room sock b s) b = Some room
     \<and> (\<exists>u \<in> set (users room). userId u = userId (sock_user sock) \<and> socketId u = sock_id sock)
     \<and> sock_id sock \<in> set (rooms (enter_note_room sock b s) (roomName b))
     \<and> sent (enter_note_room sock b s) =
         sent s @
         map (\<lambda>r. (r, UserJoined \<lparr>userId = userId (sock_user sock), username = username (sock_user sock)\<rparr>
                        (activeUsers (users room))))
             (filter (\<lambda>r. r \<noteq> sock_id sock) (rooms (enter_note_room sock b s) (roomName b))) @
         [(sock_id sock, JoinedNote b (activeUsers (users room)))]"
proof -
  let ?room = "(room_or_new s b)\<lparr>users := upsert_user sock (users (room_or_new s b))\<rparr>"
  have 1: "noteRooms (enter_note_room sock b s) b = Some ?room"
    by (rule noteRooms_enter_note_room_at)
  have u: "users ?room = upsert_user sock (users (room_or_new s b))" by simp
  have 2: "\<exists>u \<in> set (users ?room). userId u = userId (sock_user sock) \<and> socketId u = sock_id sock"
    unfolding u by (rule upsert_user_has_joiner)
  have 3: "sock_id sock \<in> set (rooms (enter_note_room sock b s) (roomName b))"
    by (simp add: rooms_enter_note_room rooms_socket_join)
  have 4: "sent (enter_note_room sock b s) =
         sent s @
         map (\<lambda>r. (r, UserJoined \<lparr>userId = userId (sock_user sock), username = username (sock_user sock)\<rparr>
                        (activeUsers (users ?room))))
             (filter (\<lambda>r. r \<noteq> sock_id sock) (rooms (enter_note_room sock b s) (roomName b))) @
         [(sock_id sock, JoinedNote b (activeUsers (users ?room)))]"
    unfolding u by (rule sent_enter_note_room)
  from 1 2 3 4 show ?thesis by blast
qed

lemma switch_messages:
  assumes inA: "roomName a \<in> set (currentRooms sock s)"
  shows "\<exists>lefts joins.
           sent (leave_note_rooms (currentRooms sock s) sock s) = sent s @ lefts
         \<and> sent (enter_note_room sock b (leave_note_rooms (currentRooms sock s) sock s)) =
             sent (leave_note_rooms (currentRooms sock s) sock s) @ joins
         \<and> (\<forall>x \<in> set lefts. \<exists>us. snd x = UserLeft (userId (sock_user sock)) us)
         \<and> (\<forall>room r. noteRooms (leave_note_rooms (currentRooms sock s) sock s) a = Some room
                \<and> r \<in> set (rooms (leave_note_rooms (currentRooms sock s) sock s) (roomName a)) \<longrightarrow>
              (r, UserLeft (userId (sock_user sock)) (activeUsers (users room))) \<in> set lefts)
         \<and> (\<forall>x \<in> set joins. \<exists>us.
               snd x = UserJoined \<lparr>userId = userId (sock_user sock), username = username (sock_user sock)\<rparr> us
               \<or> snd x = JoinedNote b us)"
proof -
  let ?s1 = "leave_note_rooms (currentRooms sock s) sock s"
  let ?s2 = "enter_note_room sock b ?s1"
  from sent_leave_note_rooms [of "currentRooms sock s" sock s] obtain lefts where
    l: "sent ?s1 = sent s @ lefts"
    and lk: "\<forall>x \<in> set lefts. \<exists>us. snd x = UserLeft (userId (sock_user sock)) us"
    by blast
  have d: "drop (length (sent s)) (sent ?s1) = lefts" by (simp add: l)
  have deliv: "\<forall>room r. noteRooms ?s1 a = Some room \<and> r \<in> set (rooms ?s1 (roomName a)) \<longrightarrow>
      (r, UserLeft (userId (sock_user sock)) (activeUsers (users room))) \<in> set lefts"
    using user_left_delivered [OF inA, of sock s] unfolding d by blast
  let ?us = "activeUsers (upsert_user sock (users (room_or_new ?s1 b)))"
  let ?joins = "map (\<lambda>r. (r, UserJoined \<lparr>userId = userId (sock_user sock), username = username (sock_user sock)\<rparr> ?us))
             (filter (\<lambda>r. r \<noteq> sock_id sock) (rooms ?s2 (roomName b))) @
         [(sock_id sock, JoinedNote b ?us)]"
  have j: "sent ?s2 = sent ?s1 @ ?joins"
    by (rule sent_enter_note_room)
  have jk: "\<forall>x \<in> set ?joins. \<exists>us.
               snd x = UserJoined \<lparr>userId = userId (sock_user sock), username = username (sock_user sock)\<rparr> us
               \<or> snd x = JoinedNote b us"
    by auto
  from l j lk deliv jk show ?thesis by blast
qed

section \<open>Owner access\<close>

text \<open>
  Claim C9. Whatever level is required, read or write, the authorization check answers true
  when the requesting user id is the note's owner; the collaborators list plays no part.
\<close>

theorem owner_is_authorized:
  "owner note = uid \<Longrightarrow> isUserAuthorized note uid requiredRole"
  by (simp add: isUserAuthorized_def)

theorem owner_is_authorized_witness:
  "owner \<lparr>owner = ''u1'', collaborators = [\<lparr>user = ''u1'', role = Read\<rparr>]\<rparr> = ''u1''
   \<and> isUserAuthorized \<lparr>owner = ''u1'', collaborators = [\<lparr>user = ''u1'', role = Read\<rparr>]\<rparr> ''u1'' Write"
  using owner_is_authorized [of "\<lparr>owner = ''u1'', collaborators = [\<lparr>user = ''u1'', role = Read\<rparr>]\<rparr>" "''u1''" Write]
  by simp

section \<open>Refused requests\<close>

text \<open>
  Claim C4. When the authorization check refuses (read for a join, write for a content
  update), the only effect is one \<^verbatim>\<open>error\<close> message to the requesting socket: room table,
  registry and transport rooms are the same state as before, and nothing goes to anyone else.
\<close>

theorem denied_requests_change_nothing:
  "(\<not> isUserAuthorized n (userId (sock_user sock)) Read \<longrightarrow>
      join_note sock nid (Found n) s =
        s\<lparr>sent := sent s @ [(sock_id sock, ErrorMsg ''Access denied to this note'')]\<rparr>)
   \<and> (\<not> isUserAuthorized n (userId (sock_user sock)) Write \<longrightarrow>
      note_update sock nid content title (Found n) now s =
        s\<lparr>sent := sent s @ [(sock_id sock, ErrorMsg ''Write access denied'')]\<rparr>)"
  by (simp add: join_note_def note_update_def socket_emit_def)

theorem denied_requests_change_nothing_witness:
  "\<not> isUserAuthorized note1 (userId (sock_user carol)) Read
   \<and> \<not> isUserAuthorized note1 (userId (sock_user carol)) Write
   \<and> join_note carol ''n1'' (Found note1) alice_in_n1 =
        alice_in_n1\<lparr>sent := sent alice_in_n1 @ [(''s3'', ErrorMsg ''Access denied to this note'')]\<rparr>
   \<and> note_update carol ''n1'' ''text'' None (Found note1) 7 alice_in_n1 =
        alice_in_n1\<lparr>sent := sent alice_in_n1 @ [(''s3'', ErrorMsg ''Write access denied'')]\<rparr>"
  using denied_requests_change_nothing [of note1 carol "''n1''" alice_in_n1 "''text''" None 7]
  by (simp add: isUserAuthorized_def sample_defs)

section \<open>Joins that find no note\<close>

text \<open>
  A join whose note id is not a well-formed object id: the lookup throws, the catch branch
  answers \<^verbatim>\<open>Failed to join note\<close>, and the requester can tell this from the answer to a
  join it is refused.
\<close>

theorem malformed_id_join_counterexample:
  "\<not> isUserAuthorized note1 (userId (sock_user carol)) Read
   \<and> sent (join_note carol ''not-an-object-id'' Threw alice_in_n1) =
       sent alice_in_n1 @ [(''s3'', ErrorMsg ''Failed to join note'')]
   \<and> sent (join_note carol ''n1'' (Found note1) alice_in_n1) =
       sent alice_in_n1 @ [(''s3'', ErrorMsg ''Access denied to this note'')]
   \<and> sent (join_note carol ''not-an-object-id'' Threw alice_in_n1) \<noteq>
       sent (join_note carol ''n1'' (Found note1) alice_in_n1)"
  by (simp add: join_note_def socket_emit_def isUserAuthorized_def sample_defs)

text \<open>
  Claim C10, as the code has it. A join that finds no note changes no state and sends one
  error to the requester alone. When the lookup resolves to \<^verbatim>\<open>null\<close> the error is the
  access-denied one and the outcome is the very same as for an existing note the user may not
  read; when the lookup throws, the error is \<^verbatim>\<open>Failed to join note\<close> instead.
\<close>

theorem join_without_note_outcomes:
  "join_note sock nid NotFound s =
     s\<lparr>sent := sent s @ [(sock_id sock, ErrorMsg ''Access denied to this note'')]\<rparr>
   \<and> (\<not> isUserAuthorized n (userId (sock_user sock)) Read \<longrightarrow>
        join_note sock nid (Found n) s = join_note sock nid NotFound s)
   \<and> join_note sock nid Threw s =
       s\<lparr>sent := sent s @ [(sock_id sock, ErrorMsg ''Failed to join note'')]\<rparr>"
  by (simp add: join_note_def socket_emit_def)

theorem join_without_note_outcomes_witness:
  "\<not> isUserAuthorized note1 (userId (sock_user carol)) Read
   \<and> join_note carol ''n1'' (Found note1) alice_in_n1 = join_note carol ''n1'' NotFound alice_in_n1
   \<and> join_note carol ''n9'' NotFound alice_in_n1 =
        alice_in_n1\<lparr>sent := sent alice_in_n1 @ [(''s3'', ErrorMsg ''Access denied to this note'')]\<rparr>
   \<and> join_note carol ''not-an-object-id'' Threw alice_in_n1 =
        alice_in_n1\<lparr>sent := sent alice_in_n1 @ [(''s3'', ErrorMsg ''Failed to join note'')]\<rparr>"
  using join_without_note_outcomes [of carol "''n1''" alice_in_n1 note1]
    join_without_note_outcomes [of carol "''n9''" alice_in_n1 note1]
    join_without_note_outcomes [of carol "''not-an-object-id''" alice_in_n1 note1]
  by (simp add: isUserAuthorized_def sample_defs)

section \<open>Content and cursor updates\<close>

text \<open>
  A sender outside the room: the second user has not joined the first note, yet both the
  cursor update and (being a write collaborator) the content update reach the member's socket,
  and the sender gets no error.
\<close>

theorem update_from_outside_room_counterexample:
  "sock_id bob \<notin> set (rooms alice_in_n1 (roomName ''n1''))
   \<and> sent (cursor_update bob ''n1'' 3 None alice_in_n1) =
       sent alice_in_n1 @
         [(''s1'', CursorUpdated \<lparr>userId = ''u2'', username = ''bob''\<rparr> 3 None)]
   \<and> sent (note_update bob ''n1'' ''text'' None (Found note1) 7 alice_in_n1) =
       sent alice_in_n1 @
         [(''s1'', NoteUpdated ''n1'' ''text'' None \<lparr>userId = ''u2'', username = ''bob''\<rparr> 7)]"
  by (simp add: alice_in_n1_eval handler_defs sample_defs)

text \<open>
  Claim C2, as the code has it. Neither handler looks at the sender's rooms. A cursor update
  always goes to every socket of the named room but the sender; a content update does the same
  when the lookup finds a note the sender may write; when the lookup resolves to \<^verbatim>\<open>null\<close>
  or write is refused, the sender alone gets \<^verbatim>\<open>Write access denied\<close>, and when the lookup
  throws, the sender alone gets \<^verbatim>\<open>Failed to update note\<close>. No other state changes.
\<close>

theorem updates_have_no_room_check:
  "cursor_update sock nid position selection s =
     s\<lparr>sent := sent s @ map (\<lambda>r. (r, CursorUpdated
           \<lparr>userId = userId (sock_user sock), username = username (sock_user sock)\<rparr>
           position selection)) (filter (\<lambda>r. r \<noteq> sock_id sock) (rooms s (roomName nid)))\<rparr>
   \<and> (isUserAuthorized n (userId (sock_user sock)) Write \<longrightarrow>
        note_update sock nid content title (Found n) now s =
          s\<lparr>sent := sent s @ map (\<lambda>r. (r, NoteUpdated nid content title
                \<lparr>userId = userId (sock_user sock), username = username (sock_user sock)\<rparr> now))
                (filter (\<lambda>r. r \<noteq> sock_id sock) (rooms s (roomName nid)))\<rparr>)
   \<and> (res = NotFound \<or> (\<exists>n. res = Found n \<and> \<not> isUserAuthorized n (userId (sock_user sock)) Write) \<longrightarrow>
        note_update sock nid content title res now s =
          s\<lparr>sent := sent s @ [(sock_id sock, ErrorMsg ''Write access denied'')]\<rparr>)
   \<and> note_update sock nid content title Threw now s =
       s\<lparr>sent := sent s @ [(sock_id sock, ErrorMsg ''Failed to update note'')]\<rparr>"
  by (auto simp: cursor_update_def note_update_def socket_to_emit_def socket_emit_def)

theorem updates_have_no_room_check_witness:
  "isUserAuthorized note1 (userId (sock_user bob)) Write
   \<and> \<not> isUserAuthorized note1 (userId (sock_user carol)) Write
   \<and> sent (cursor_update bob ''n1'' 3 None alice_in_n1) =
       sent alice_in_n1 @ [(''s1'', CursorUpdated \<lparr>userId = ''u2'', username = ''bob''\<rparr> 3 None)]
   \<and> sent (note_update bob ''n1'' ''text'' None (Found note1) 7 alice_in_n1) =
       sent alice_in_n1 @
         [(''s1'', NoteUpdated ''n1'' ''text'' None \<lparr>userId = ''u2'', username = ''bob''\<rparr> 7)]
   \<and> sent (note_update carol ''n1'' ''text'' None (Found note1) 7 alice_in_n1) =
       sent alice_in_n1 @ [(''s3'', ErrorMsg ''Write access denied'')]
   \<and> sent (note_update bob ''not-an-object-id'' ''text'' None Threw 7 alice_in_n1) =
       sent alice_in_n1 @ [(''s2'', ErrorMsg ''Failed to update note'')]"
  using updates_have_no_room_check [of bob "''not-an-object-id''" 3 None alice_in_n1 note1 "''text''" None 7 Threw]
    updates_have_no_room_check [of bob "''n1''" 3 None alice_in_n1 note1 "''text''" None 7 "Found note1"]
    updates_have_no_room_check [of carol "''n1''" 3 None alice_in_n1 note1 "''text''" None 7 "Found note1"]
  by (simp add: alice_in_n1_eval isUserAuthorized_def sample_defs roomName_def)

section \<open>Leaving a room one is not in\<close>

text \<open>
  Claim C3. A leave for a room whose membership does not hold the user should change nothing
  and send nothing. \<open>handleUserLeaveRoom\<close> returns early only when the room is absent; when the
  room exists it sends \<^verbatim>\<open>user-left\<close> whether or not the filter removed anyone. Here the second
  user, never a member of the first note, leaves it, and the member's socket is told so.
\<close>

theorem leave_by_non_member_broadcasts:
  "map userId (getActiveUsersInNote alice_in_n1 ''n1'') = [''u1'']
   \<and> sock_id bob \<notin> set (rooms alice_in_n1 (roomName ''n1''))
   \<and> noteRooms (leave_note bob ''n1'' alice_in_n1) ''n1'' = noteRooms alice_in_n1 ''n1''
   \<and> sent (leave_note bob ''n1'' alice_in_n1) =
       sent alice_in_n1 @ [(''s1'', UserLeft ''u2'' [\<lparr>userId = ''u1'', username = ''alice''\<rparr>])]"
  by (simp add: alice_in_n1_eval handler_defs sample_defs)

section \<open>Room table invariants\<close>

text \<open>
  Claim C5. After any finite sequence of events from the initial state, no entry of the room
  table has an empty member list; and a leave that removes the last member deletes the entry
  in the same call.
\<close>

theorem no_empty_rooms:
  "(\<forall>k room. noteRooms (run init_state evs) k = Some room \<longrightarrow> users room \<noteq> [])
   \<and> (\<forall>room. noteRooms s nid = Some room
          \<and> (\<forall>u \<in> set (users room). userId u = userId (sock_user sock))
        \<longrightarrow> noteRooms (leave_note sock nid s) nid = None)"
proof
  have "rooms_nonempty (run init_state evs)"
    by (rule rooms_nonempty_run [OF rooms_nonempty_init])
  then show "\<forall>k room. noteRooms (run init_state evs) k = Some room \<longrightarrow> users room \<noteq> []"
    by (simp add: rooms_nonempty_def)
next
  show "\<forall>room. noteRooms s nid = Some room
          \<and> (\<forall>u \<in> set (users room). userId u = userId (sock_user sock))
        \<longrightarrow> noteRooms (leave_note sock nid s) nid = None"
    by (auto simp: leave_note_def noteRooms_handleUserLeaveRoom filter_empty_conv)
qed

theorem no_empty_rooms_witness:
  "(\<exists>room. noteRooms both_in_n1 ''n1'' = Some room \<and> users room \<noteq> [])
   \<and> (\<exists>room. noteRooms alice_in_n1 ''n1'' = Some room
         \<and> (\<forall>u \<in> set (users room). userId u = userId (sock_user alice)))
   \<and> noteRooms (leave_note alice ''n1'' alice_in_n1) ''n1'' = None"
  using no_empty_rooms [of "[Connect ''s1'' (Some (sock_user alice)), Connect ''s2'' (Some (sock_user bob)),
      JoinNote alice ''n1'' (Found note1), JoinNote bob ''n1'' (Found note1)]" alice_in_n1 "''n1''" alice,
      folded both_in_n1_def]
  by (simp add: both_in_n1_eval alice_in_n1_eval sample_defs)

section \<open>Presence query\<close>

text \<open>
  The records returned for the first note after its owner joined: each has the socket id.
\<close>

theorem presence_carries_socket_id_counterexample:
  "getActiveUsersInNote alice_in_n1 ''n1'' =
     [\<lparr>userId = ''u1'', username = ''alice'', socketId = ''s1''\<rparr>]
   \<and> map socketId (getActiveUsersInNote alice_in_n1 ''n1'') = [''s1'']"
  by (simp add: alice_in_n1_eval getActiveUsersInNote_def)

text \<open>
  Claim C8, as the code has it. \<open>getActiveUsersInNote\<close> returns the room's member records as
  stored, socket id included; the list is empty when there is no such room, and in a state
  reached from the initial one only then.
\<close>

theorem presence_is_member_records:
  "(getActiveUsersInNote (run init_state evs) nid = [] \<longleftrightarrow> noteRooms (run init_state evs) nid = None)
   \<and> (\<forall>room. noteRooms s nid = Some room \<longrightarrow>
         getActiveUsersInNote s nid = users room
         \<and> map socketId (getActiveUsersInNote s nid) = map socketId (users room))
   \<and> (noteRooms s nid = None \<longrightarrow> getActiveUsersInNote s nid = [])"
proof -
  have "rooms_nonempty (run init_state evs)"
    by (rule rooms_nonempty_run [OF rooms_nonempty_init])
  then have "getActiveUsersInNote (run init_state evs) nid = [] \<longleftrightarrow> noteRooms (run init_state evs) nid = None"
    by (auto simp: rooms_nonempty_def getActiveUsersInNote_def split: option.splits)
  then show ?thesis by (simp add: getActiveUsersInNote_def)
qed

theorem presence_is_member_records_witness:
  "noteRooms alice_in_n1 ''n1'' = Some \<lparr>noteId = ''n1'', users = [\<lparr>userId = ''u1'', username = ''alice'', socketId = ''s1''\<rparr>]\<rparr>
   \<and> getActiveUsersInNote alice_in_n1 ''n1'' = [\<lparr>userId = ''u1'', username = ''alice'', socketId = ''s1''\<rparr>]
   \<and> noteRooms alice_in_n1 ''n2'' = None
   \<and> getActiveUsersInNote alice_in_n1 ''n2'' = []"
  using presence_is_member_records [of "[]" "''n1''" alice_in_n1]
    presence_is_member_records [of "[]" "''n2''" alice_in_n1]
  by (simp add: alice_in_n1_eval)

section \<open>Switching rooms\<close>

text \<open>
  Claim C1. A socket that is in room \<open>a\<close> and joins another room \<open>b\<close> it may read first runs
  the whole leave of \<open>a\<close>: in the state \<open>s1\<close> between the leave loop and the join proper the
  user is out of \<open>a\<close>'s member list, the socket is out of \<open>a\<close>'s transport room, every socket
  still in that room has been sent \<^verbatim>\<open>user-left\<close> with the remaining roster, and nobody has
  been added to \<open>b\<close>. Only then is the user inserted into \<open>b\<close>, and everything the join sends
  (\<^verbatim>\<open>user-joined\<close>, \<^verbatim>\<open>joined-note\<close>) comes after every \<^verbatim>\<open>user-left\<close> in the log; from \<open>s1\<close>
  on the user is never in \<open>a\<close>'s member list, so never in both.
\<close>

theorem switch_leaves_old_room_first:
  assumes auth: "isUserAuthorized n (userId (sock_user sock)) Read"
    and inA: "roomName a \<in> set (currentRooms sock s)"
    and ab: "a \<noteq> b"
  shows "let s1 = leave_note_rooms (currentRooms sock s) sock s;
             s2 = join_note sock b (Found n) s;
             uid = userId (sock_user sock)
         in s2 = enter_note_room sock b s1
          \<and> (\<forall>room. noteRooms s1 a = Some room \<longrightarrow> (\<forall>u \<in> set (users room). userId u \<noteq> uid))
          \<and> sock_id sock \<notin> set (rooms s1 (roomName a))
          \<and> (\<forall>room1. noteRooms s1 b = Some room1 \<longrightarrow>
                (\<exists>room0. noteRooms s b = Some room0 \<and> set (users room1) \<subseteq> set (users room0)))
          \<and> (\<forall>room. noteRooms s2 a = Some room \<longrightarrow> (\<forall>u \<in> set (users room). userId u \<noteq> uid))
          \<and> sock_id sock \<notin> set (rooms s2 (roomName a))
          \<and> (\<exists>room. noteRooms s2 b = Some room \<and> (\<exists>u \<in> set (users room). userId u = uid))
          \<and> (\<exists>lefts joins.
                sent s1 = sent s @ lefts \<and> sent s2 = sent s1 @ joins
              \<and> (\<forall>x \<in> set lefts. \<exists>us. snd x = UserLeft uid us)
              \<and> (\<forall>room r. noteRooms s1 a = Some room \<and> r \<in> set (rooms s1 (roomName a)) \<longrightarrow>
                    (r, UserLeft uid (activeUsers (users room))) \<in> set lefts)
              \<and> (\<forall>x \<in> set joins. \<exists>us.
                    snd x = UserJoined \<lparr>userId = uid, username = username (sock_user sock)\<rparr> us
                    \<or> snd x = JoinedNote b us))"
proof -
  let ?s1 = "leave_note_rooms (currentRooms sock s) sock s"
  let ?uid = "userId (sock_user sock)"
  have s2: "join_note sock b (Found n) s = enter_note_room sock b ?s1"
    by (rule join_note_authorized [OF auth])
  have p2: "\<forall>room. noteRooms ?s1 a = Some room \<longrightarrow> (\<forall>u \<in> set (users room). userId u \<noteq> ?uid)"
    using after_leave_user_gone [OF inA] by blast
  have p3: "sock_id sock \<notin> set (rooms ?s1 (roomName a))"
    by (rule after_leave_socket_gone [OF inA])
  have p4: "\<forall>room1. noteRooms ?s1 b = Some room1 \<longrightarrow>
                (\<exists>room0. noteRooms s b = Some room0 \<and> set (users room1) \<subseteq> set (users room0))"
    using after_leave_nobody_added by blast
  have p5: "\<forall>room. noteRooms (enter_note_room sock b ?s1) a = Some room \<longrightarrow>
                (\<forall>u \<in> set (users room). userId u \<noteq> ?uid)"
    using p2 by (simp add: after_enter_other_room(1) [OF ab])
  have p6: "sock_id sock \<notin> set (rooms (enter_note_room sock b ?s1) (roomName a))"
    using p3 by (simp add: after_enter_other_room(2) [OF ab])
  have p7: "\<exists>room. noteRooms (enter_note_room sock b ?s1) b = Some room
                \<and> (\<exists>u \<in> set (users room). userId u = ?uid)"
    using after_enter_joiner_present [of sock b ?s1] by blast
  note p8 = switch_messages [OF inA, of b]
  show ?thesis
    unfolding Let_def s2
    apply (intro conjI)
           apply (rule refl)
          apply (rule p2)
         apply (rule p3)
        apply (rule p4)
       apply (rule p5)
      apply (rule p6)
     apply (rule p7)
    apply (rule p8)
    done
qed

theorem switch_leaves_old_room_first_witness:
  "isUserAuthorized note1 (userId (sock_user alice)) Read
   \<and> roomName ''n1'' \<in> set (currentRooms alice both_in_n1)
   \<and> ''n1'' \<noteq> ''n2''
   \<and> sent (join_note alice ''n2'' (Found note1) both_in_n1) =
        sent both_in_n1 @
        [(''s2'', UserLeft ''u1'' [\<lparr>userId = ''u2'', username = ''bob''\<rparr>]),
         (''s1'', JoinedNote ''n2'' [\<lparr>userId = ''u1'', username = ''alice''\<rparr>])]
   \<and> map userId (getActiveUsersInNote (leave_note_rooms (currentRooms alice both_in_n1) alice both_in_n1) ''n1'') = [''u2'']
   \<and> getActiveUsersInNote (leave_note_rooms (currentRooms alice both_in_n1) alice both_in_n1) ''n2'' = []
   \<and> map userId (getActiveUsersInNote (join_note alice ''n2'' (Found note1) both_in_n1) ''n1'') = [''u2'']
   \<and> map userId (getActiveUsersInNote (join_note alice ''n2'' (Found note1) both_in_n1) ''n2'') = [''u1'']"
  using switch_leaves_old_room_first [of note1 alice "''n1''" both_in_n1 "''n2''"]
  by (simp add: both_in_n1_eval handler_defs sample_defs)

section \<open>Join notifications\<close>

text \<open>
  Claim C7. After a successful join the room entry holds the joiner with the joining socket's
  id, and the join sent exactly this, in this order, after whatever the leave loop sent:
  \<^verbatim>\<open>user-joined\<close> with the joiner's identity and the roster of that entry to every socket of
  the room except the joiner's, then \<^verbatim>\<open>joined-note\<close> with the note id and the same roster to
  the joiner's socket alone.
\<close>

theorem join_notifications:
  assumes auth: "isUserAuthorized n (userId (sock_user sock)) Read"
  shows "let s1 = leave_note_rooms (currentRooms sock s) sock s;
             s2 = join_note sock nid (Found n) s;
             joiner = \<lparr>userId = userId (sock_user sock), username = username (sock_user sock)\<rparr>
         in \<exists>room. noteRooms s2 nid = Some room
              \<and> (\<exists>u \<in> set (users room). userId u = userId (sock_user sock) \<and> socketId u = sock_id sock)
              \<and> sock_id sock \<in> set (rooms s2 (roomName nid))
              \<and> sent s2 =
                  sent s1 @
                  map (\<lambda>r. (r, UserJoined joiner (activeUsers (users room))))
                      (filter (\<lambda>r. r \<noteq> sock_id sock) (rooms s2 (roomName nid))) @
                  [(sock_id sock, JoinedNote nid (activeUsers (users room)))]"
  unfolding Let_def join_note_authorized [OF auth]
  by (rule after_enter_joiner_present)

theorem join_notifications_witness:
  "isUserAuthorized note1 (userId (sock_user bob)) Read
   \<and> sent (join_note bob ''n1'' (Found note1) alice_in_n1) =
       sent alice_in_n1 @
       [(''s1'', UserJoined \<lparr>userId = ''u2'', username = ''bob''\<rparr>
                  [\<lparr>userId = ''u1'', username = ''alice''\<rparr>, \<lparr>userId = ''u2'', username = ''bob''\<rparr>]),
        (''s2'', JoinedNote ''n1''
                  [\<lparr>userId = ''u1'', username = ''alice''\<rparr>, \<lparr>userId = ''u2'', username = ''bob''\<rparr>])]
   \<and> activeUsers (getActiveUsersInNote (join_note bob ''n1'' (Found note1) alice_in_n1) ''n1'') =
       [\<lparr>userId = ''u1'', username = ''alice''\<rparr>, \<lparr>userId = ''u2'', username = ''bob''\<rparr>]"
  using join_notifications [of note1 bob alice_in_n1 "''n1''"]
  by (simp add: alice_in_n1_eval handler_defs sample_defs)

section \<open>One entry per user\<close>

text \<open>
  A member rejoining from the socket that is already in the room: the leave loop removes the
  entry and the join appends a new one, so the entry moves to the end of the list.
\<close>

theorem rejoin_not_in_place_counterexample:
  "isUserAuthorized note1 (userId (sock_user alice)) Read
   \<and> getActiveUsersInNote both_in_n1 ''n1'' =
     [\<lparr>userId = ''u1'', username = ''alice'', socketId = ''s1''\<rparr>,
      \<lparr>userId = ''u2'', username = ''bob'', socketId = ''s2''\<rparr>]
   \<and> getActiveUsersInNote (join_note alice ''n1'' (Found note1) both_in_n1) ''n1'' =
     [\<lparr>userId = ''u2'', username = ''bob'', socketId = ''s2''\<rparr>,
      \<lparr>userId = ''u1'', username = ''alice'', socketId = ''s1''\<rparr>]"
  by (simp add: both_in_n1_eval handler_defs sample_defs)

text \<open>
  Claim C6, as the code has it. After any sequence of events every room lists each user id at
  most once. When a user who is a member of a room joins it again, the member count stays the
  same; the existing entry has its socket id overwritten in place when the joining socket is
  not itself in that room (a new connection), and is removed and appended anew at the end when
  it is.
\<close>

theorem one_entry_per_user:
  "(\<forall>k room. noteRooms (run init_state evs) k = Some room \<longrightarrow> distinct (map userId (users room)))
   \<and> (\<forall>room. isUserAuthorized n (userId (sock_user sock)) Read
          \<and> noteRooms (run init_state evs) nid = Some room
          \<and> (\<exists>u \<in> set (users room). userId u = userId (sock_user sock)) \<longrightarrow>
        (\<exists>room'. noteRooms (join_note sock nid (Found n) (run init_state evs)) nid = Some room'
           \<and> length (users room') = length (users room)
           \<and> (if roomName nid \<in> set (currentRooms sock (run init_state evs))
               then users room' = filter (\<lambda>u. userId u \<noteq> userId (sock_user sock)) (users room) @
                      [\<lparr>userId = userId (sock_user sock), username = username (sock_user sock),
                        socketId = sock_id sock\<rparr>]
               else \<exists>i < length (users room). userId (users room ! i) = userId (sock_user sock)
                      \<and> users room' = (users room)[i := (users room ! i)\<lparr>socketId := sock_id sock\<rparr>])))"
proof (rule conjI)
  have "users_distinct (run init_state evs)"
    by (rule users_distinct_run [OF users_distinct_init])
  then show "\<forall>k room. noteRooms (run init_state evs) k = Some room \<longrightarrow> distinct (map userId (users room))"
    by (simp add: users_distinct_def)
next
  let ?s = "run init_state evs"
  have d: "users_distinct ?s" by (rule users_distinct_run [OF users_distinct_init])
  show "\<forall>room. isUserAuthorized n (userId (sock_user sock)) Read
          \<and> noteRooms ?s nid = Some room
          \<and> (\<exists>u \<in> set (users room). userId u = userId (sock_user sock)) \<longrightarrow>
        (\<exists>room'. noteRooms (join_note sock nid (Found n) ?s) nid = Some room'
           \<and> length (users room') = length (users room)
           \<and> (if roomName nid \<in> set (currentRooms sock ?s)
               then users room' = filter (\<lambda>u. userId u \<noteq> userId (sock_user sock)) (users room) @
                      [\<lparr>userId = userId (sock_user sock), username = username (sock_user sock),
                        socketId = sock_id sock\<rparr>]
               else \<exists>i < length (users room). userId (users room ! i) = userId (sock_user sock)
                      \<and> users room' = (users room)[i := (users room ! i)\<lparr>socketId := sock_id sock\<rparr>]))"
  proof (intro allI impI, elim conjE)
    fix room
    assume auth: "isUserAuthorized n (userId (sock_user sock)) Read"
      and room: "noteRooms ?s nid = Some room"
      and member: "\<exists>u \<in> set (users room). userId u = userId (sock_user sock)"
    from d room have dist: "distinct (map userId (users room))"
      unfolding users_distinct_def by blast
    show "\<exists>room'. noteRooms (join_note sock nid (Found n) ?s) nid = Some room'
           \<and> length (users room') = length (users room)
           \<and> (if roomName nid \<in> set (currentRooms sock ?s)
               then users room' = filter (\<lambda>u. userId u \<noteq> userId (sock_user sock)) (users room) @
                      [\<lparr>userId = userId (sock_user sock), username = username (sock_user sock),
                        socketId = sock_id sock\<rparr>]
               else \<exists>i < length (users room). userId (users room ! i) = userId (sock_user sock)
                      \<and> users room' = (users room)[i := (users room ! i)\<lparr>socketId := sock_id sock\<rparr>])"
      by (rule rejoin_shape [OF auth room member dist])
  qed
qed

theorem one_entry_per_user_witness:
  "isUserAuthorized note1 (userId (sock_user alice_again)) Read
   \<and> (\<exists>room. noteRooms both_in_n1 ''n1'' = Some room
         \<and> distinct (map userId (users room))
         \<and> (\<exists>u \<in> set (users room). userId u = userId (sock_user alice_again)))
   \<and> roomName ''n1'' \<notin> set (currentRooms alice_again both_in_n1)
   \<and> getActiveUsersInNote (join_note alice_again ''n1'' (Found note1) both_in_n1) ''n1'' =
       [\<lparr>userId = ''u1'', username = ''alice'', socketId = ''s4''\<rparr>,
        \<lparr>userId = ''u2'', username = ''bob'', socketId = ''s2''\<rparr>]
   \<and> roomName ''n1'' \<in> set (currentRooms alice both_in_n1)
   \<and> getActiveUsersInNote (join_note alice ''n1'' (Found note1) both_in_n1) ''n1'' =
       [\<lparr>userId = ''u2'', username = ''bob'', socketId = ''s2''\<rparr>,
        \<lparr>userId = ''u1'', username = ''alice'', socketId = ''s1''\<rparr>]"
  using one_entry_per_user [of "[Connect ''s1'' (Some (sock_user alice)), Connect ''s2'' (Some (sock_user bob)),
      JoinNote alice ''n1'' (Found note1), JoinNote bob ''n1'' (Found note1)]" note1 alice_again "''n1''",
      folded both_in_n1_def]
    one_entry_per_user [of "[Connect ''s1'' (Some (sock_user alice)), Connect ''s2'' (Some (sock_user bob)),
      JoinNote alice ''n1'' (Found note1), JoinNote bob ''n1'' (Found note1)]" note1 alice "''n1''",
      folded both_in_n1_def]
  by (simp add: both_in_n1_eval handler_defs sample_defs)

end
